theory Spec2Isabelle
  imports Main
begin

section \<open>The undo feature of CKEditor 5: data model\<close>

text \<open>
  The development embeds \<^verbatim>\<open>UndoCommand\<close> (\<^verbatim>\<open>undocommand.js\<close>, the version with
  \<^verbatim>\<open>_items\<close>, \<^verbatim>\<open>_batchRegistry\<close> and \<^verbatim>\<open>_originalDeltas\<close>) and the
  change listener of \<^verbatim>\<open>UndoEngine.init\<close> (\<^verbatim>\<open>undoengine.js\<close>).

  The engine classes the command works on (positions, ranges, operations, deltas, batches,
  the document, its history and its selection) belong to another package. Their data is
  modelled as far as the command reads or writes it; their methods are parameters,
  collected in the record \<open>engine\<close> below.
\<close>

datatype error = TypeError

text \<open>
  A position: the identity of its root, the path to its parent and its offset there
  (the engine's \<^verbatim>\<open>offset\<close> accessor reads and writes the last item of the full path).
\<close>

record position =
  root :: string
  path :: "nat list"
  offset :: nat

record model_range =
  start :: position
  endp :: position

text \<open>
  Operations. \<^verbatim>\<open>RemoveOperation\<close> and \<^verbatim>\<open>ReinsertOperation\<close> extend
  \<^verbatim>\<open>MoveOperation\<close> and differ from it by their \<^verbatim>\<open>type\<close> only. The arguments of
  \<open>MoveOperation\<close> are the class, \<^verbatim>\<open>sourcePosition\<close>, \<^verbatim>\<open>howMany\<close>,
  \<^verbatim>\<open>targetPosition\<close> and \<^verbatim>\<open>movedRangeStart\<close>; those of \<open>InsertOperation\<close> are
  \<^verbatim>\<open>position\<close> and \<^verbatim>\<open>nodeList\<close> (the inserted characters).
\<close>

datatype move_class = Move | Remove | Reinsert

datatype operation =
    InsertOperation position string
  | MoveOperation move_class position nat position position
  | AttributeOperation
  | NoOperation

fun optype :: "operation \<Rightarrow> string" where
  "optype (InsertOperation p ns) = ''insert''"
| "optype (MoveOperation Move s n t r) = ''move''"
| "optype (MoveOperation Remove s n t r) = ''remove''"
| "optype (MoveOperation Reinsert s n t r) = ''reinsert''"
| "optype AttributeOperation = ''attribute''"
| "optype NoOperation = ''noop''"

text \<open>Property reads; \<open>None\<close> is JavaScript's \<^verbatim>\<open>undefined\<close>.\<close>

fun opPosition :: "operation \<Rightarrow> position option" where
  "opPosition (InsertOperation p ns) = Some p"
| "opPosition _ = None"

fun sourcePosition :: "operation \<Rightarrow> position option" where
  "sourcePosition (MoveOperation c s n t r) = Some s"
| "sourcePosition _ = None"

fun targetPosition :: "operation \<Rightarrow> position option" where
  "targetPosition (MoveOperation c s n t r) = Some t"
| "targetPosition _ = None"

fun movedRangeStart :: "operation \<Rightarrow> position option" where
  "movedRangeStart (MoveOperation c s n t r) = Some r"
| "movedRangeStart _ = None"

fun howMany :: "operation \<Rightarrow> nat option" where
  "howMany (MoveOperation c s n t r) = Some n"
| "howMany _ = None"

text \<open>
  A delta is an object: \<open>delta_id\<close> is its identity (the key of the weak map
  \<^verbatim>\<open>_originalDeltas\<close>). \<open>isMoveDelta\<close> is \<^verbatim>\<open>delta instanceof MoveDelta\<close>.
  \<open>batchType\<close> is \<open>None\<close> when \<^verbatim>\<open>delta.batch\<close> is unset and \<open>Some t\<close> when
  \<^verbatim>\<open>delta.batch.type\<close> is \<open>t\<close> (\<open>t = None\<close> for \<^verbatim>\<open>undefined\<close>).
\<close>

record delta =
  delta_id :: nat
  isMoveDelta :: bool
  operations :: "operation list"
  baseVersion :: nat
  batchType :: "string option option"

text \<open>
  A batch: its identity, its \<^verbatim>\<open>type\<close> (\<open>None\<close> for \<^verbatim>\<open>undefined\<close>, the default) and
  its deltas.
\<close>

record batch =
  batch_id :: nat
  btype :: "string option"
  deltas :: "delta list"

record selection_state =
  ranges :: "model_range list"
  isBackward :: bool

text \<open>
  An item of the stack refers to its batch, an object that may still grow after it has
  been recorded; \<open>item_batch\<close> is the batch as the command reads it when it executes.
\<close>

record item =
  item_batch :: batch
  selection :: selection_state

text \<open>
  The fields of \<^verbatim>\<open>UndoCommand\<close>. \<open>batchRegistry\<close> is the weak set of batch identities,
  \<open>originalDeltas\<close> the weak map from delta identities to deltas, \<open>ctype\<close> is
  \<^verbatim>\<open>this._type\<close>. \<open>isEnabled\<close> is the state that \<^verbatim>\<open>refreshState\<close> of the base class
  \<^verbatim>\<open>Command\<close> recomputes from \<^verbatim>\<open>_checkEnabled\<close>.
\<close>

record undo_command =
  items :: "item list"
  batchRegistry :: "nat set"
  ctype :: string
  originalDeltas :: "nat \<rightharpoonup> delta"
  isEnabled :: bool

text \<open>
  The engine, as the command uses it. \<open>'doc\<close> is the state of the document (tree,
  history, selection). An operation object refers to its delta (\<^verbatim>\<open>operation.delta\<close>),
  which the document reads when it applies the operation (it files the delta in its
  history and reports the delta's batch to the change listeners); the model's operations
  carry no reference, so \<open>applyOperation\<close> gets the delta as its first argument.
  \<open>arraySort\<close> is \<^verbatim>\<open>Array.prototype.sort\<close> with a comparator.
\<close>

record 'doc engine =
  getReversed :: "delta \<Rightarrow> delta"
  getTransformedDelta :: "'doc \<Rightarrow> delta \<Rightarrow> delta list"
  getDeltas :: "'doc \<Rightarrow> nat \<Rightarrow> delta list"
  applyOperation :: "delta \<Rightarrow> operation \<Rightarrow> 'doc \<Rightarrow> 'doc"
  graveyard :: "'doc \<Rightarrow> string"
  getRanges :: "'doc \<Rightarrow> model_range list"
  selectionIsBackward :: "'doc \<Rightarrow> bool"
  setRanges :: "model_range list \<Rightarrow> bool \<Rightarrow> 'doc \<Rightarrow> 'doc"
  getTransformedByInsertion ::
    "model_range \<Rightarrow> position \<Rightarrow> nat \<Rightarrow> bool \<Rightarrow> bool \<Rightarrow> model_range list"
  getTransformedByMove ::
    "model_range \<Rightarrow> position \<Rightarrow> position \<Rightarrow> nat \<Rightarrow> bool \<Rightarrow> bool \<Rightarrow> model_range list"
  isBefore :: "position \<Rightarrow> position \<Rightarrow> bool"
  isAfter :: "position \<Rightarrow> position \<Rightarrow> bool"
  isEqual :: "position \<Rightarrow> position \<Rightarrow> bool"
  isTouching :: "position \<Rightarrow> position \<Rightarrow> bool"
  arraySort :: "(model_range \<Rightarrow> model_range \<Rightarrow> int) \<Rightarrow> model_range list \<Rightarrow> model_range list"

section \<open>Array methods\<close>

text \<open>
  \<^verbatim>\<open>Array.prototype.findIndex\<close>: the index of the first element that satisfies the
  predicate, \<open>-1\<close> when there is none.
\<close>

fun findIndex :: "('a \<Rightarrow> bool) \<Rightarrow> 'a list \<Rightarrow> int" where
  "findIndex p [] = -1"
| "findIndex p (x # xs) =
     (if p x then 0 else (let i = findIndex p xs in if i < 0 then -1 else i + 1))"

text \<open>
  \<^verbatim>\<open>Array.prototype.splice(start, deleteCount, ...new)\<close>: a negative \<open>start\<close> counts
  from the end of the array, and \<open>start\<close> is clamped to the array. The result is the
  array of the removed elements and the array after the call.
\<close>

definition splice_array :: "int \<Rightarrow> nat \<Rightarrow> 'a list \<Rightarrow> 'a list \<Rightarrow> 'a list \<times> 'a list" where
  "splice_array start_index deleteCount new xs =
     (let len = int (length xs);
          actualStart = nat (if start_index < 0 then max (len + start_index) 0
                             else min start_index len)
      in (take deleteCount (drop actualStart xs),
          take actualStart xs @ new @ drop (actualStart + deleteCount) xs))"

section \<open>UndoCommand: the stack\<close>

definition checkEnabled :: "undo_command \<Rightarrow> bool" where
  "checkEnabled cmd = (length (items cmd) > 0)"

definition refreshState :: "undo_command \<Rightarrow> undo_command" where
  "refreshState cmd = cmd\<lparr>isEnabled := checkEnabled cmd\<rparr>"

text \<open>
  \<^verbatim>\<open>addBatch( batch )\<close>: the selection is read from the document at the moment of the
  call.
\<close>

definition addBatch :: "'doc engine \<Rightarrow> 'doc \<Rightarrow> batch \<Rightarrow> undo_command \<Rightarrow> undo_command" where
  "addBatch env doc b cmd =
     (if batch_id b \<notin> batchRegistry cmd then
        (let sel = \<lparr>ranges = getRanges env doc, isBackward = selectionIsBackward env doc\<rparr>
         in refreshState
              (cmd\<lparr>items := items cmd @ [\<lparr>item_batch = b, selection = sel\<rparr>],
                   batchRegistry := insert (batch_id b) (batchRegistry cmd)\<rparr>))
      else cmd)"

definition clearStack :: "undo_command \<Rightarrow> undo_command" where
  "clearStack cmd = refreshState (cmd\<lparr>items := []\<rparr>)"

text \<open>
  The first statements of \<^verbatim>\<open>_doExecute( batch = null )\<close>: the index of the item, its
  removal from \<^verbatim>\<open>_items\<close> and \<^verbatim>\<open>this._batchRegistry.delete( batch )\<close>, whose argument
  is the parameter of the call. The first component of the result is \<^verbatim>\<open>undoItem\<close>
  (\<open>None\<close> for \<^verbatim>\<open>undefined\<close>).
\<close>

definition popItem :: "batch option \<Rightarrow> undo_command \<Rightarrow> item option \<times> undo_command" where
  "popItem b cmd =
     (let batchIndex =
            (case b of
               Some b' \<Rightarrow> findIndex (\<lambda>a. batch_id (item_batch a) = batch_id b') (items cmd)
             | None \<Rightarrow> int (length (items cmd)) - 1);
          (removed, rest) = splice_array batchIndex 1 [] (items cmd);
          undoItem = (case removed of [] \<Rightarrow> None | x # _ \<Rightarrow> Some x);
          registry = (case b of
                        Some b' \<Rightarrow> batchRegistry cmd - {batch_id b'}
                      | None \<Rightarrow> batchRegistry cmd)
      in (undoItem, cmd\<lparr>items := rest, batchRegistry := registry\<rparr>))"

section \<open>UndoCommand: reverting the deltas\<close>

text \<open>
  \<^verbatim>\<open>upOp.targetPosition.offset += n; upOp.movedRangeStart.offset += n\<close> on the first
  operation of a delta.
\<close>

fun shiftOperation :: "nat \<Rightarrow> operation \<Rightarrow> operation" where
  "shiftOperation k (MoveOperation c s n t r) =
     MoveOperation c s n (t\<lparr>offset := offset t + k\<rparr>) (r\<lparr>offset := offset r + k\<rparr>)"
| "shiftOperation k op = op"

definition shiftMove :: "nat \<Rightarrow> delta \<Rightarrow> delta" where
  "shiftMove k d =
     d\<lparr>operations := (case operations d of [] \<Rightarrow> [] | op # ops \<Rightarrow> shiftOperation k op # ops)\<rparr>"

text \<open>\<^verbatim>\<open>op.sourcePosition || op.position\<close>.\<close>

definition originPosition :: "operation \<Rightarrow> position option" where
  "originPosition op = (case sourcePosition op of Some p \<Rightarrow> Some p | None \<Rightarrow> opPosition op)"

text \<open>
  One round of the inner loop of \<^verbatim>\<open>postFix\<close>: the delta \<open>upDelta\<close> (known to be a
  \<^verbatim>\<open>MoveDelta\<close>) against one delta of the history. Reading a property of
  \<^verbatim>\<open>undefined\<close> is a \<open>TypeError\<close>; so is handing \<^verbatim>\<open>undefined\<close> to a method of
  a position, which reads its argument.
\<close>

definition postFixStep ::
  "'doc engine \<Rightarrow> (nat \<rightharpoonup> delta) \<Rightarrow> delta \<Rightarrow> delta \<Rightarrow> error + delta" where
  "postFixStep env od upDelta hDelta =
     (if \<not> isMoveDelta hDelta then Inr upDelta
      else if batchType hDelta \<noteq> Some (Some ''undo'') \<and> batchType hDelta \<noteq> Some (Some ''redo'')
      then Inr upDelta
      else
        (case (operations upDelta, operations hDelta) of
           (upOp # _, hOp # _) \<Rightarrow>
             (case (targetPosition upOp, targetPosition hOp, howMany hOp) of
                (Some upTarget, Some hTarget, Some hHowMany) \<Rightarrow>
                  if isEqual env upTarget hTarget then
                    (case (od (delta_id upDelta), od (delta_id hDelta)) of
                       (Some origUpDelta, Some origHDelta) \<Rightarrow>
                         (case (operations origUpDelta, operations origHDelta) of
                            (origUpOp # _, origHOp # _) \<Rightarrow>
                              (case (originPosition origUpOp, originPosition origHOp) of
                                 (Some upPos, Some hPos) \<Rightarrow>
                                   if isAfter env upPos hPos
                                   then Inr (shiftMove hHowMany upDelta)
                                   else Inr upDelta
                               | _ \<Rightarrow> Inl TypeError)
                          | _ \<Rightarrow> Inl TypeError)
                     | _ \<Rightarrow> Inr upDelta)
                  else Inr upDelta
              | _ \<Rightarrow> Inl TypeError)
         | _ \<Rightarrow> Inl TypeError))"

text \<open>The inner loop: \<^verbatim>\<open>for ( let hDelta of historyDeltas )\<close>.\<close>

fun postFixDelta ::
  "'doc engine \<Rightarrow> (nat \<rightharpoonup> delta) \<Rightarrow> delta \<Rightarrow> delta list \<Rightarrow> error + delta" where
  "postFixDelta env od upDelta [] = Inr upDelta"
| "postFixDelta env od upDelta (hDelta # hs) =
     (case postFixStep env od upDelta hDelta of
        Inl e \<Rightarrow> Inl e
      | Inr upDelta' \<Rightarrow> postFixDelta env od upDelta' hs)"

text \<open>
  \<^verbatim>\<open>postFix( deltas, historyDeltas )\<close>; \<open>od\<close> is the map \<^verbatim>\<open>originalDeltas\<close> of
  the enclosing \<^verbatim>\<open>_doExecute\<close>. The deltas are changed in place; the result is the
  list after the call.
\<close>

fun postFix ::
  "'doc engine \<Rightarrow> (nat \<rightharpoonup> delta) \<Rightarrow> delta list \<Rightarrow> delta list \<Rightarrow> error + delta list" where
  "postFix env od [] historyDeltas = Inr []"
| "postFix env od (upDelta # ups) historyDeltas =
     (case (if \<not> isMoveDelta upDelta then Inr upDelta
            else postFixDelta env od upDelta historyDeltas) of
        Inl e \<Rightarrow> Inl e
      | Inr upDelta' \<Rightarrow>
          (case postFix env od ups historyDeltas of
             Inl e \<Rightarrow> Inl e
           | Inr ups' \<Rightarrow> Inr (upDelta' # ups')))"

text \<open>
  \<^verbatim>\<open>Batch.addDelta\<close> of the engine: the delta joins the batch, and its \<^verbatim>\<open>batch\<close>
  property refers to the batch from then on.
\<close>

definition attach :: "batch \<Rightarrow> delta \<Rightarrow> delta" where
  "attach b d = d\<lparr>batchType := Some (btype b)\<rparr>"

definition addDelta :: "delta \<Rightarrow> batch \<Rightarrow> batch" where
  "addDelta d b = b\<lparr>deltas := deltas b @ [attach b d]\<rparr>"

text \<open>
  The second loop over \<^verbatim>\<open>updatedDeltas\<close>: each delta is added to the reversion batch
  and its operations are applied to the document.
\<close>

fun applyDeltas :: "'doc engine \<Rightarrow> delta list \<Rightarrow> batch \<times> 'doc \<Rightarrow> batch \<times> 'doc" where
  "applyDeltas env [] st = st"
| "applyDeltas env (d # ds) (reversionBatch, doc) =
     applyDeltas env ds
       (addDelta d reversionBatch,
        foldl (\<lambda>dc op. applyOperation env (attach reversionBatch d) op dc) doc (operations d))"

text \<open>
  The loop \<^verbatim>\<open>for ( let undoDelta of undoDeltas )\<close>. The state is the map
  \<^verbatim>\<open>originalDeltas\<close>, the reversion batch and the document; an exception leaves the
  state it was raised in.
\<close>

fun revertDeltas ::
  "'doc engine \<Rightarrow> delta list \<Rightarrow> (nat \<rightharpoonup> delta) \<times> batch \<times> 'doc \<Rightarrow>
     (error \<times> (nat \<rightharpoonup> delta) \<times> batch \<times> 'doc) + ((nat \<rightharpoonup> delta) \<times> batch \<times> 'doc)" where
  "revertDeltas env [] st = Inr st"
| "revertDeltas env (undoDelta # rest) (od, reversionBatch, doc) =
     (let undoDeltaReversed = getReversed env undoDelta;
          updatedDeltas = getTransformedDelta env doc undoDeltaReversed;
          od' = foldl (\<lambda>m d. m(delta_id d \<mapsto> undoDelta)) od updatedDeltas
      in case postFix env od' updatedDeltas (getDeltas env doc (baseVersion undoDelta)) of
           Inl e \<Rightarrow> Inl (e, od', reversionBatch, doc)
         | Inr fixedDeltas \<Rightarrow>
             (case applyDeltas env fixedDeltas (reversionBatch, doc) of
                (reversionBatch', doc') \<Rightarrow> revertDeltas env rest (od', reversionBatch', doc')))"

section \<open>UndoCommand: restoring the selection\<close>

text \<open>
  The \<^verbatim>\<open>switch ( operation.type )\<close>: \<open>None\<close> when no case matches and
  \<^verbatim>\<open>result\<close> stays \<^verbatim>\<open>undefined\<close>.
\<close>

fun transformRange :: "'doc engine \<Rightarrow> operation \<Rightarrow> model_range \<Rightarrow> model_range list option" where
  "transformRange env (InsertOperation p ns) r =
     Some (getTransformedByInsertion env r p (length ns) True False)"
| "transformRange env (MoveOperation c s n t m) r =
     Some (getTransformedByMove env r s t n True False)"
| "transformRange env AttributeOperation r = None"
| "transformRange env NoOperation r = None"

text \<open>
  \<^verbatim>\<open>for ( let t = 0; t < transformed.length; t++ )\<close>, from index \<open>t\<close> on. After a
  splice the loop goes on at \<^verbatim>\<open>t + result.length - 1 + 1\<close>.
\<close>

function transformByOperation ::
  "'doc engine \<Rightarrow> operation \<Rightarrow> nat \<Rightarrow> model_range list \<Rightarrow> model_range list" where
  "transformByOperation env op t transformed =
     (if t < length transformed then
        (case transformRange env op (transformed ! t) of
           None \<Rightarrow> transformByOperation env op (t + 1) transformed
         | Some result \<Rightarrow>
             transformByOperation env op (t + length result)
               (snd (splice_array (int t) 1 result transformed)))
      else transformed)"
  by pat_completeness auto
termination
  by (relation "measure (\<lambda>(env, op, t, transformed). length transformed - t)")
     (auto simp: splice_array_def)

text \<open>The loops over the deltas of the history and over their operations.\<close>

definition transformByDeltas ::
  "'doc engine \<Rightarrow> delta list \<Rightarrow> model_range \<Rightarrow> model_range list" where
  "transformByDeltas env historyDeltas originalRange =
     foldl (\<lambda>transformed d.
              foldl (\<lambda>transformed' op. transformByOperation env op 0 transformed')
                transformed (operations d))
       [originalRange] historyDeltas"

text \<open>The comparator handed to \<^verbatim>\<open>sort\<close>.\<close>

definition startComparator :: "'doc engine \<Rightarrow> model_range \<Rightarrow> model_range \<Rightarrow> int" where
  "startComparator env a b = (if isBefore env (start a) (start b) then -1 else 1)"

text \<open>
  \<^verbatim>\<open>for ( let i = 1; i < transformed.length; i++ )\<close>, from index \<open>i\<close> on; the loop
  starts at 1 and \<open>i\<close> never gets below it (after a splice it stays where it is).
\<close>

function mergeTouching :: "'doc engine \<Rightarrow> nat \<Rightarrow> model_range list \<Rightarrow> model_range list" where
  "mergeTouching env i transformed =
     (if i < length transformed then
        (let a = transformed ! (i - 1); b = transformed ! i in
         if isTouching env (endp a) (start b) then
           mergeTouching env i
             (snd (splice_array (int i) 1 [] (transformed[i - 1 := a\<lparr>endp := endp b\<rparr>])))
         else mergeTouching env (i + 1) transformed)
      else transformed)"
  by pat_completeness auto
termination
  by (relation "measure (\<lambda>(env, i, transformed). length transformed - i)")
     (auto simp: splice_array_def)

text \<open>The body of \<^verbatim>\<open>for ( let originalRange of ranges )\<close> up to the \<^verbatim>\<open>find\<close>.\<close>

definition transformedRangeOf ::
  "'doc engine \<Rightarrow> 'doc \<Rightarrow> delta list \<Rightarrow> model_range \<Rightarrow> model_range option" where
  "transformedRangeOf env doc historyDeltas originalRange =
     (let transformed = transformByDeltas env historyDeltas originalRange;
          sorted = arraySort env (startComparator env) transformed;
          merged = mergeTouching env 1 sorted
      in find (\<lambda>r. root (start r) \<noteq> graveyard env doc) merged)"

fun collectRanges ::
  "'doc engine \<Rightarrow> 'doc \<Rightarrow> delta list \<Rightarrow> model_range list \<Rightarrow> model_range list \<Rightarrow> model_range list"
  where
  "collectRanges env doc historyDeltas [] transformedRanges = transformedRanges"
| "collectRanges env doc historyDeltas (originalRange # rs) transformedRanges =
     collectRanges env doc historyDeltas rs
       (case transformedRangeOf env doc historyDeltas originalRange of
          None \<Rightarrow> transformedRanges
        | Some transformedRange \<Rightarrow> transformedRanges @ [transformedRange])"

definition restoreSelection ::
  "'doc engine \<Rightarrow> selection_state \<Rightarrow> delta list \<Rightarrow> 'doc \<Rightarrow> 'doc" where
  "restoreSelection env selectionState historyDeltas doc =
     (let transformedRanges = collectRanges env doc historyDeltas (ranges selectionState) []
      in if length transformedRanges \<noteq> 0
         then setRanges env transformedRanges (isBackward selectionState) doc
         else doc)"

section \<open>UndoCommand: the execution\<close>

text \<open>
  The outcome of \<^verbatim>\<open>_doExecute\<close>: the command and the document after the call, the
  reversion batch, and the batch fired with the \<^verbatim>\<open>revert\<close> event.
\<close>

record 'doc execution =
  cmd_after :: undo_command
  doc_after :: 'doc
  reversionBatch :: batch
  reverted :: batch

text \<open>
  \<^verbatim>\<open>_doExecute( batch = null )\<close>. \<open>rbid\<close> is the identity of the object that
  \<^verbatim>\<open>new Batch\<close> creates. The callback handed to \<^verbatim>\<open>enqueueChanges\<close> runs at once
  (the call is not nested in another one). An exception (here a \<open>TypeError\<close>, raised by
  reading a property of \<^verbatim>\<open>undefined\<close>) ends the call with the command and the document
  as they are at that moment.
\<close>

definition doExecute ::
  "'doc engine \<Rightarrow> nat \<Rightarrow> batch option \<Rightarrow> undo_command \<Rightarrow> 'doc \<Rightarrow>
     (error \<times> undo_command \<times> 'doc) + 'doc execution" where
  "doExecute env rbid b cmd doc =
     (case popItem b cmd of
        (None, cmd1) \<Rightarrow> Inl (TypeError, cmd1, doc)
      | (Some undoItem, cmd1) \<Rightarrow>
          (let undoBatch = item_batch undoItem;
               undoDeltas = rev (deltas undoBatch);
               newBatch = \<lparr>batch_id = rbid, btype = Some (ctype cmd1), deltas = []\<rparr>
           in case revertDeltas env undoDeltas (originalDeltas cmd1, newBatch, doc) of
                Inl (e, od, rb, doc1) \<Rightarrow> Inl (e, cmd1\<lparr>originalDeltas := od\<rparr>, doc1)
              | Inr (od, rb, doc1) \<Rightarrow>
                  (case deltas undoBatch of
                     [] \<Rightarrow> Inl (TypeError, cmd1\<lparr>originalDeltas := od\<rparr>, doc1)
                   | d0 # _ \<Rightarrow>
                       Inr \<lparr>cmd_after = refreshState (cmd1\<lparr>originalDeltas := od\<rparr>),
                            doc_after =
                              restoreSelection env (selection undoItem)
                                (getDeltas env doc1 (baseVersion d0)) doc1,
                            reversionBatch = rb,
                            reverted = undoBatch\<rparr>)))"

section \<open>UndoEngine: the change listener\<close>

record undo_engine =
  undoCommand :: undo_command
  redoCommand :: undo_command

text \<open>
  The listener that \<^verbatim>\<open>init\<close> registers for the \<^verbatim>\<open>change\<close> event of the document;
  \<open>b\<close> is the batch of the event.
\<close>

definition onChange :: "'doc engine \<Rightarrow> 'doc \<Rightarrow> batch \<Rightarrow> undo_engine \<Rightarrow> undo_engine" where
  "onChange env doc b eng =
     (if btype b = None then
        eng\<lparr>undoCommand := addBatch env doc b (undoCommand eng),
            redoCommand := clearStack (redoCommand eng)\<rparr>
      else if btype b = Some ''undo'' then
        eng\<lparr>redoCommand := addBatch env doc b (redoCommand eng)\<rparr>
      else if btype b = Some ''redo'' then
        eng\<lparr>undoCommand := addBatch env doc b (undoCommand eng)\<rparr>
      else eng)"

section \<open>Sequences of calls, and the stack and its registry\<close>

text \<open>The batch identities on the stack, bottom first.\<close>

definition stackIds :: "undo_command \<Rightarrow> nat list" where
  "stackIds cmd = map (\<lambda>a. batch_id (item_batch a)) (items cmd)"

text \<open>No batch is on the stack twice, and every batch on the stack is registered.\<close>

definition stackInv :: "undo_command \<Rightarrow> bool" where
  "stackInv cmd = (distinct (stackIds cmd) \<and> set (stackIds cmd) \<subseteq> batchRegistry cmd)"

text \<open>
  The calls a command receives, each with the document as it is at the call. An execution
  that ends with an exception leaves the command as it is at that moment.
\<close>

datatype 'doc call = AddBatch 'doc batch | ClearStack | Execute nat "batch option" 'doc

fun step :: "'doc engine \<Rightarrow> 'doc call \<Rightarrow> undo_command \<Rightarrow> undo_command" where
  "step env (AddBatch doc b) cmd = addBatch env doc b cmd"
| "step env ClearStack cmd = clearStack cmd"
| "step env (Execute rbid b doc) cmd =
     (case doExecute env rbid b cmd doc of
        Inl (e, cmd', doc') \<Rightarrow> cmd'
      | Inr r \<Rightarrow> cmd_after r)"

fun run :: "'doc engine \<Rightarrow> 'doc call list \<Rightarrow> undo_command \<Rightarrow> undo_command" where
  "run env [] cmd = cmd"
| "run env (c # cs) cmd = run env cs (step env c cmd)"

text \<open>The identities of the batches that a sequence of calls hands to \<open>addBatch\<close>.\<close>

fun recordedIds :: "'doc call list \<Rightarrow> nat list" where
  "recordedIds [] = []"
| "recordedIds (AddBatch doc b # cs) = batch_id b # recordedIds cs"
| "recordedIds (c # cs) = recordedIds cs"

section \<open>The post-fix of moves, as the specification words it\<close>








section \<open>The reversion of a batch, in flat form\<close>

text \<open>Sequencing of two parts of a run that may end with an exception.\<close>

definition andThen ::
  "('e + 's) \<Rightarrow> ('s \<Rightarrow> 'e + 's) \<Rightarrow> 'e + 's" where
  "andThen x f = (case x of Inl e \<Rightarrow> Inl e | Inr s \<Rightarrow> f s)"

text \<open>
  The operations of a list of deltas in their order, each with its delta as it is once
  it belongs to the batch, and their application to the document one after the other.
\<close>

definition operationsOf :: "batch \<Rightarrow> delta list \<Rightarrow> (delta \<times> operation) list" where
  "operationsOf rb us = concat (map (\<lambda>u. map (\<lambda>op. (attach rb u, op)) (operations u)) us)"

definition applyAll :: "'doc engine \<Rightarrow> 'doc \<Rightarrow> (delta \<times> operation) list \<Rightarrow> 'doc" where
  "applyAll env doc evs = foldl (\<lambda>dc (d, op). applyOperation env d op dc) doc evs"

text \<open>The map \<^verbatim>\<open>originalDeltas\<close> after every delta of \<open>us\<close> has been set to \<open>d\<close>.\<close>

definition recordOriginals :: "(nat \<rightharpoonup> delta) \<Rightarrow> delta list \<Rightarrow> delta \<Rightarrow> (nat \<rightharpoonup> delta)" where
  "recordOriginals od us d = (\<lambda>k. if k \<in> set (map delta_id us) then Some d else od k)"

section \<open>The transformation of a selection range, as the specification words it\<close>




section \<open>A small engine for the examples\<close>

text \<open>
  A document that keeps the operations applied to it, its history and its selection, with
  positions compared by their offsets in one parent. Reversing a delta reverses its
  operations; the history rebases a reversed delta over the deltas that came after the
  original one. It instantiates the parameters of the model in the examples below; the
  theorems hold for every engine.
\<close>

record test_doc =
  applied :: "operation list"
  history :: "delta list"
  sel :: selection_state

fun reverseOperation :: "operation \<Rightarrow> operation" where
  "reverseOperation (InsertOperation p ns) =
     MoveOperation Remove p (length ns)
       \<lparr>root = ''$graveyard'', path = [], offset = 0\<rparr>
       \<lparr>root = ''$graveyard'', path = [], offset = 0\<rparr>"
| "reverseOperation (MoveOperation c s n t m) = MoveOperation c m n s s"
| "reverseOperation op = op"

fun insertBy :: "('a \<Rightarrow> 'a \<Rightarrow> int) \<Rightarrow> 'a \<Rightarrow> 'a list \<Rightarrow> 'a list" where
  "insertBy cmp x [] = [x]"
| "insertBy cmp x (y # ys) = (if cmp x y < 0 then x # y # ys else y # insertBy cmp x ys)"

definition sameParent :: "position \<Rightarrow> position \<Rightarrow> bool" where
  "sameParent p q = (root p = root q \<and> path p = path q)"

definition testInsertion ::
  "model_range \<Rightarrow> position \<Rightarrow> nat \<Rightarrow> bool \<Rightarrow> bool \<Rightarrow> model_range list" where
  "testInsertion r p n spread sticky =
     (if \<not> sameParent p (start r) then [r]
      else if offset p \<le> offset (start r) then
        [\<lparr>start = (start r)\<lparr>offset := offset (start r) + n\<rparr>,
          endp = (endp r)\<lparr>offset := offset (endp r) + n\<rparr>\<rparr>]
      else if offset p < offset (endp r) then
        (if spread then
           [\<lparr>start = start r, endp = p\<rparr>,
            \<lparr>start = p\<lparr>offset := offset p + n\<rparr>,
             endp = (endp r)\<lparr>offset := offset (endp r) + n\<rparr>\<rparr>]
         else [\<lparr>start = start r, endp = (endp r)\<lparr>offset := offset (endp r) + n\<rparr>\<rparr>])
      else [r])"

definition testMove ::
  "model_range \<Rightarrow> position \<Rightarrow> position \<Rightarrow> nat \<Rightarrow> bool \<Rightarrow> bool \<Rightarrow> model_range list" where
  "testMove r s t n spread sticky =
     (if \<not> sameParent s (start r) then [r]
      else if offset s \<le> offset (start r) \<and> offset (endp r) \<le> offset s + n then
        [\<lparr>start = t\<lparr>offset := offset t + (offset (start r) - offset s)\<rparr>,
          endp = t\<lparr>offset := offset t + (offset (endp r) - offset s)\<rparr>\<rparr>]
      else if offset s + n \<le> offset (start r) then
        [\<lparr>start = (start r)\<lparr>offset := offset (start r) - n\<rparr>,
          endp = (endp r)\<lparr>offset := offset (endp r) - n\<rparr>\<rparr>]
      else [r])"

text \<open>
  Rebasing in one parent: where an offset lies after an operation has been applied. A
  position at the very place where a move puts its nodes stays where it is.
\<close>

fun rebaseOffset :: "position \<Rightarrow> operation \<Rightarrow> nat \<Rightarrow> nat" where
  "rebaseOffset p (InsertOperation q ns) k =
     (if sameParent p q \<and> offset q \<le> k then k + length ns else k)"
| "rebaseOffset p (MoveOperation c s n t m) k =
     (let k1 = (if \<not> sameParent p s then k
                else if offset s + n \<le> k then k - n
                else if offset s < k then offset s
                else k)
      in if sameParent p m \<and> offset m < k1 then k1 + n else k1)"
| "rebaseOffset p op k = k"

definition rebasePosition :: "operation \<Rightarrow> position \<Rightarrow> position" where
  "rebasePosition h p = p\<lparr>offset := rebaseOffset p h (offset p)\<rparr>"

fun rebaseOperation :: "operation \<Rightarrow> operation \<Rightarrow> operation" where
  "rebaseOperation (InsertOperation p ns) h = InsertOperation (rebasePosition h p) ns"
| "rebaseOperation (MoveOperation c s n t m) h =
     MoveOperation c (rebasePosition h s) n (rebasePosition h t) (rebasePosition h m)"
| "rebaseOperation op h = op"

definition testEngine :: "test_doc engine" where
  "testEngine =
     \<lparr>getReversed =
        (\<lambda>d. d\<lparr>delta_id := delta_id d + 100,
                operations := map reverseOperation (rev (operations d)),
                baseVersion := baseVersion d + 1\<rparr>),
      getTransformedDelta =
        (\<lambda>doc d.
           [d\<lparr>operations :=
                 map (\<lambda>op. foldl rebaseOperation op
                             (concat (map operations
                                (filter (\<lambda>h. baseVersion d \<le> baseVersion h) (history doc)))))
                   (operations d),
               baseVersion := length (history doc)\<rparr>]),
      getDeltas = (\<lambda>doc v. filter (\<lambda>d. v \<le> baseVersion d) (history doc)),
      applyOperation =
        (\<lambda>d op doc.
           doc\<lparr>applied := applied doc @ [op],
               history := (if delta_id d \<in> set (map delta_id (history doc)) then history doc
                           else history doc @ [d])\<rparr>),
      graveyard = (\<lambda>doc. ''$graveyard''),
      getRanges = (\<lambda>doc. ranges (sel doc)),
      selectionIsBackward = (\<lambda>doc. isBackward (sel doc)),
      setRanges = (\<lambda>rs bw doc. doc\<lparr>sel := \<lparr>ranges = rs, isBackward = bw\<rparr>\<rparr>),
      getTransformedByInsertion = testInsertion,
      getTransformedByMove = testMove,
      isBefore = (\<lambda>p q. sameParent p q \<and> offset p < offset q),
      isAfter = (\<lambda>p q. sameParent p q \<and> offset q < offset p),
      isEqual = (\<lambda>p q. p = q),
      isTouching = (\<lambda>p q. p = q),
      arraySort = (\<lambda>cmp xs. foldr (insertBy cmp) xs [])\<rparr>"

text \<open>Positions and collapsed ranges in the one paragraph of the root \<open>main\<close>.\<close>

definition mainPos :: "nat \<Rightarrow> position" where
  "mainPos n = \<lparr>root = ''main'', path = [0], offset = n\<rparr>"

definition caret :: "nat \<Rightarrow> model_range" where
  "caret n = \<lparr>start = mainPos n, endp = mainPos n\<rparr>"

definition docWith :: "delta list \<Rightarrow> nat \<Rightarrow> bool \<Rightarrow> test_doc" where
  "docWith h n bw = \<lparr>applied = [], history = h, sel = \<lparr>ranges = [caret n], isBackward = bw\<rparr>\<rparr>"

text \<open>
  A command as its constructor leaves it (the base class enables a command when it creates
  it).
\<close>

definition newCommand :: "string \<Rightarrow> undo_command" where
  "newCommand t =
     \<lparr>items = [], batchRegistry = {}, ctype = t, originalDeltas = Map.empty, isEnabled = True\<rparr>"

text \<open>A delta that inserts text, a delta that moves text, and a batch of the user.\<close>

definition insertDelta :: "nat \<Rightarrow> nat \<Rightarrow> nat \<Rightarrow> string \<Rightarrow> delta" where
  "insertDelta i v n txt =
     \<lparr>delta_id = i, isMoveDelta = False, operations = [InsertOperation (mainPos n) txt],
      baseVersion = v, batchType = Some None\<rparr>"

definition moveDelta :: "nat \<Rightarrow> nat \<Rightarrow> nat \<Rightarrow> nat \<Rightarrow> nat \<Rightarrow> delta" where
  "moveDelta i v src n tgt =
     \<lparr>delta_id = i, isMoveDelta = True,
      operations = [MoveOperation Move (mainPos src) n (mainPos tgt)
                      (mainPos (if src < tgt then tgt - n else tgt))],
      baseVersion = v, batchType = Some None\<rparr>"

definition userBatch :: "nat \<Rightarrow> delta list \<Rightarrow> batch" where
  "userBatch i ds = \<lparr>batch_id = i, btype = None, deltas = ds\<rparr>"

section \<open>The data of the examples\<close>

text \<open>Three calls of \<open>addBatch\<close>, the last with a batch recorded before.\<close>

definition threeCalls :: "test_doc call list" where
  "threeCalls =
     [AddBatch (docWith [] 0 False) (userBatch 1 [insertDelta 1 0 0 ''foo'']),
      AddBatch (docWith [] 3 False) (userBatch 2 [insertDelta 2 1 3 ''bar'']),
      AddBatch (docWith [] 6 True) (userBatch 1 [insertDelta 1 0 0 ''foo''])]"




text \<open>A batch of the user whose one operation inserts into a detached fragment.\<close>

definition detachedBatch :: batch where
  "detachedBatch =
     userBatch 3
       [\<lparr>delta_id = 30, isMoveDelta = False,
         operations = [InsertOperation \<lparr>root = ''$fragment'', path = [], offset = 0\<rparr> ''foo''],
         baseVersion = 0, batchType = Some None\<rparr>]"

text \<open>A command that recorded one batch of the user, and the document after that batch.\<close>

definition fooBatch :: batch where
  "fooBatch = userBatch 1 [insertDelta 1 0 0 ''foo'']"

definition oneItemCommand :: undo_command where
  "oneItemCommand = addBatch testEngine (docWith [] 0 False) fooBatch (newCommand ''undo'')"

definition fooDoc :: test_doc where
  "fooDoc = docWith [insertDelta 1 0 0 ''foo''] 3 False"




text \<open>A batch of three insertions, recorded by a command, and the document after it.\<close>

definition abcBatch :: batch where
  "abcBatch = userBatch 4 [insertDelta 1 0 0 ''a'', insertDelta 2 1 1 ''b'', insertDelta 3 2 2 ''c'']"

definition abcCommand :: undo_command where
  "abcCommand = addBatch testEngine (docWith [] 0 False) abcBatch (newCommand ''undo'')"

definition abcDoc :: test_doc where
  "abcDoc = docWith (deltas abcBatch) 3 False"

text \<open>A history that inserts two characters and removes them again; a command that recorded
  a batch under a backward selection.\<close>

definition removeDelta :: "nat \<Rightarrow> nat \<Rightarrow> nat \<Rightarrow> nat \<Rightarrow> delta" where
  "removeDelta i v src n =
     \<lparr>delta_id = i, isMoveDelta = True,
      operations = [MoveOperation Remove (mainPos src) n
                      \<lparr>root = ''$graveyard'', path = [], offset = 0\<rparr>
                      \<lparr>root = ''$graveyard'', path = [], offset = 0\<rparr>],
      baseVersion = v, batchType = Some None\<rparr>"

definition splitHistory :: "delta list" where
  "splitHistory = [insertDelta 5 1 2 ''xx'', removeDelta 6 2 2 2]"

definition backwardCommand :: undo_command where
  "backwardCommand =
     addBatch testEngine (docWith [] 1 True) (userBatch 7 [insertDelta 8 1 2 ''xx''])
       (newCommand ''undo'')"

text \<open>
  The example of the comment in \<^verbatim>\<open>postFix\<close>: in \<open>foobar\<close> the user moves \<open>oo\<close> to the
  end (\<open>fbaroo\<close>), then \<open>f\<close> between the two \<open>o\<close> (\<open>barofo\<close>); then the command
  undoes twice. \<open>secondUndoForgetful\<close> is the second undo on a command whose map
  \<^verbatim>\<open>_originalDeltas\<close> has been emptied after the first.
\<close>

definition moveOO :: delta where
  "moveOO = moveDelta 1 0 1 2 6"

definition moveF :: delta where
  "moveF = moveDelta 2 1 0 1 5"

definition twoMovesCommand :: undo_command where
  "twoMovesCommand =
     addBatch testEngine (docWith [moveOO] 0 False) (userBatch 2 [moveF])
       (addBatch testEngine (docWith [] 0 False) (userBatch 1 [moveOO]) (newCommand ''undo''))"

definition twoMovesDoc :: test_doc where
  "twoMovesDoc = docWith [moveOO, moveF] 0 False"

definition firstUndo :: "(error \<times> undo_command \<times> test_doc) + test_doc execution" where
  "firstUndo = doExecute testEngine 8 None twoMovesCommand twoMovesDoc"

definition secondUndo :: "(error \<times> undo_command \<times> test_doc) + test_doc execution" where
  "secondUndo =
     doExecute testEngine 9 None (cmd_after (projr firstUndo)) (doc_after (projr firstUndo))"

definition secondUndoForgetful :: "(error \<times> undo_command \<times> test_doc) + test_doc execution" where
  "secondUndoForgetful =
     doExecute testEngine 9 None ((cmd_after (projr firstUndo))\<lparr>originalDeltas := Map.empty\<rparr>)
       (doc_after (projr firstUndo))"

section \<open>Preliminaries of the proofs\<close>

text \<open>The two loops with an index are unfolded by hand, one round at a time.\<close>

declare transformByOperation.simps [simp del]
declare mergeTouching.simps [simp del]

section \<open>Array methods: facts\<close>

lemma findIndex_range: "-1 \<le> findIndex p xs \<and> findIndex p xs < int (length xs)"
  by (induction xs) (auto simp: Let_def)

lemma findIndex_none: "findIndex p xs < 0 \<longleftrightarrow> (\<forall>x\<in>set xs. \<not> p x)"
  by (induction xs) (auto simp: Let_def)

lemma findIndex_absent: "\<forall>x\<in>set xs. \<not> p x \<Longrightarrow> findIndex p xs = -1"
  using findIndex_none[of p xs] findIndex_range[of p xs] by linarith

lemma findIndex_found: "0 \<le> findIndex p xs \<Longrightarrow> p (xs ! nat (findIndex p xs))"
  by (induction xs) (auto simp: Let_def nat_add_distrib split: if_splits)

lemma splice_remove_index:
  "k < length xs \<Longrightarrow>
   splice_array (int k) (Suc 0) [] xs = ([xs ! k], take k xs @ drop (Suc k) xs)"
  by (simp add: splice_array_def Let_def min_def Cons_nth_drop_Suc[symmetric])

lemma splice_minus_one_nonempty:
  "xs \<noteq> [] \<Longrightarrow> splice_array (-1) (Suc 0) [] xs = ([last xs], butlast xs)"
proof -
  assume ne: "xs \<noteq> []"
  then have k: "length xs - 1 < length xs" by simp
  have "splice_array (-1) (Suc 0) [] xs = splice_array (int (length xs - 1)) (Suc 0) [] xs"
    using ne by (simp add: splice_array_def Let_def of_nat_diff Suc_leI)
  also have "\<dots> = ([xs ! (length xs - 1)], take (length xs - 1) xs @ drop (Suc (length xs - 1)) xs)"
    by (rule splice_remove_index[OF k])
  finally show ?thesis using ne by (simp add: last_conv_nth butlast_conv_take)
qed

lemma splice_minus_one_empty: "splice_array (-1) (Suc 0) [] [] = ([], [])"
  by (simp add: splice_array_def)

lemma splice_remove_subset: "set (snd (splice_array i n [] xs)) \<subseteq> set xs"
proof -
  have "set (take a xs @ drop b xs) \<subseteq> set xs" for a b
    using set_take_subset[of a xs] set_drop_subset[of b xs] by auto
  then show ?thesis by (simp add: splice_array_def Let_def)
qed

lemma distinct_remove_nth:
  "distinct xs \<Longrightarrow> k < length xs \<Longrightarrow>
   distinct (take k xs @ drop (Suc k) xs) \<and> xs ! k \<notin> set (take k xs @ drop (Suc k) xs) \<and>
   set (take k xs @ drop (Suc k) xs) \<subseteq> set xs"
proof -
  assume d: "distinct xs" and k: "k < length xs"
  have xs: "xs = take k xs @ (xs ! k) # drop (Suc k) xs"
    using k by (simp add: id_take_nth_drop[symmetric])
  have "distinct (take k xs @ (xs ! k) # drop (Suc k) xs)" using d xs by simp
  then have "distinct (take k xs @ drop (Suc k) xs) \<and> xs ! k \<notin> set (take k xs @ drop (Suc k) xs)"
    by auto
  moreover have "set (take k xs @ drop (Suc k) xs) \<subseteq> set xs"
    using set_take_subset set_drop_subset by fastforce
  ultimately show ?thesis by blast
qed

section \<open>Removing an item from the stack\<close>

lemma popItem_empty:
  "items cmd = [] \<Longrightarrow>
   popItem b cmd =
     (None, cmd\<lparr>items := [],
                batchRegistry := (case b of Some b' \<Rightarrow> batchRegistry cmd - {batch_id b'}
                                  | None \<Rightarrow> batchRegistry cmd)\<rparr>)"
  by (cases b) (simp_all add: popItem_def splice_minus_one_empty)

lemma popItem_top:
  "items cmd \<noteq> [] \<Longrightarrow>
   popItem None cmd = (Some (last (items cmd)), cmd\<lparr>items := butlast (items cmd)\<rparr>)"
proof -
  assume ne: "items cmd \<noteq> []"
  then have k: "length (items cmd) - Suc 0 < length (items cmd)" by simp
  have idx: "int (length (items cmd)) - 1 = int (length (items cmd) - Suc 0)"
    using ne by (simp add: of_nat_diff Suc_leI)
  show ?thesis
    using ne by (simp add: popItem_def idx splice_remove_index[OF k] last_conv_nth butlast_conv_take)
qed

lemma popItem_absent:
  assumes "items cmd \<noteq> []" and "batch_id b \<notin> set (stackIds cmd)"
  shows "popItem (Some b) cmd =
           (Some (last (items cmd)),
            cmd\<lparr>items := butlast (items cmd), batchRegistry := batchRegistry cmd - {batch_id b}\<rparr>)"
proof -
  have "findIndex (\<lambda>a. batch_id (item_batch a) = batch_id b) (items cmd) = -1"
    using assms(2) by (intro findIndex_absent) (force simp: stackIds_def)
  then show ?thesis
    using assms(1) by (simp add: popItem_def splice_minus_one_nonempty)
qed

lemma popItem_present:
  assumes "batch_id b \<in> set (stackIds cmd)"
  shows "\<exists>k < length (items cmd). batch_id (item_batch (items cmd ! k)) = batch_id b \<and>
           popItem (Some b) cmd =
             (Some (items cmd ! k),
              cmd\<lparr>items := take k (items cmd) @ drop (Suc k) (items cmd),
                  batchRegistry := batchRegistry cmd - {batch_id b}\<rparr>)"
proof -
  let ?p = "\<lambda>a. batch_id (item_batch a) = batch_id b"
  let ?i = "findIndex ?p (items cmd)"
  have nn: "0 \<le> ?i"
    using assms findIndex_none[of ?p "items cmd"] by (auto simp: stackIds_def)
  define k where "k = nat ?i"
  have ik: "?i = int k" using nn by (simp add: k_def)
  have kl: "k < length (items cmd)" using findIndex_range[of ?p "items cmd"] ik by linarith
  have pk: "?p (items cmd ! k)" using findIndex_found[OF nn] by (simp add: k_def)
  have "popItem (Some b) cmd =
             (Some (items cmd ! k),
              cmd\<lparr>items := take k (items cmd) @ drop (Suc k) (items cmd),
                  batchRegistry := batchRegistry cmd - {batch_id b}\<rparr>)"
    by (simp add: popItem_def ik splice_remove_index[OF kl])
  with kl pk show ?thesis by blast
qed

lemma popItem_stackInv: "stackInv cmd \<Longrightarrow> stackInv (snd (popItem b cmd))"
proof -
  assume inv: "stackInv cmd"
  show ?thesis
  proof (cases "items cmd = []")
    case True
    then show ?thesis by (simp add: popItem_empty stackInv_def stackIds_def)
  next
    case ne: False
    show ?thesis
    proof (cases b)
      case None
      have "distinct (butlast (stackIds cmd))" using inv by (simp add: stackInv_def distinct_butlast)
      moreover have "set (butlast (stackIds cmd)) \<subseteq> batchRegistry cmd"
        using inv in_set_butlastD by (fastforce simp: stackInv_def)
      ultimately show ?thesis using ne None
        by (simp add: popItem_top stackInv_def stackIds_def map_butlast)
    next
      case (Some b')
      show ?thesis
      proof (cases "batch_id b' \<in> set (stackIds cmd)")
        case False
        have "distinct (butlast (stackIds cmd))" using inv by (simp add: stackInv_def distinct_butlast)
        moreover have "set (butlast (stackIds cmd)) \<subseteq> batchRegistry cmd - {batch_id b'}"
          using inv False in_set_butlastD by (fastforce simp: stackInv_def)
        ultimately show ?thesis using ne Some False
          by (simp add: popItem_absent stackInv_def stackIds_def map_butlast)
      next
        case True
        from popItem_present[OF True] obtain k where
          k: "k < length (items cmd)" and
          idk: "batch_id (item_batch (items cmd ! k)) = batch_id b'" and
          pop: "popItem (Some b') cmd =
             (Some (items cmd ! k),
              cmd\<lparr>items := take k (items cmd) @ drop (Suc k) (items cmd),
                  batchRegistry := batchRegistry cmd - {batch_id b'}\<rparr>)"
          by blast
        have k': "k < length (stackIds cmd)" using k by (simp add: stackIds_def)
        have nthk: "stackIds cmd ! k = batch_id b'" using k idk by (simp add: stackIds_def)
        have d: "distinct (stackIds cmd)" using inv by (simp add: stackInv_def)
        note r = distinct_remove_nth[OF d k']
        have ids: "stackIds (snd (popItem (Some b') cmd)) =
                     take k (stackIds cmd) @ drop (Suc k) (stackIds cmd)"
          by (simp add: pop stackIds_def take_map drop_map)
        have "set (take k (stackIds cmd) @ drop (Suc k) (stackIds cmd))
                \<subseteq> batchRegistry cmd - {batch_id b'}"
          using r nthk inv by (auto simp: stackInv_def)
        then show ?thesis using r Some ids
          by (simp add: stackInv_def pop)
      qed
    qed
  qed
qed

lemma popItem_items_subset: "set (items (snd (popItem b cmd))) \<subseteq> set (items cmd)"
  using splice_remove_subset[of _ "Suc 0" "items cmd"]
  by (simp add: popItem_def Let_def split: prod.splits) (metis snd_conv)

lemma popItem_ids_subset: "set (stackIds (snd (popItem b cmd))) \<subseteq> set (stackIds cmd)"
  using popItem_items_subset[of b cmd] by (auto simp: stackIds_def)

text \<open>An execution changes the stack and the registry as its first statements do.\<close>

lemma doExecute_stack_Inr:
  "doExecute env rbid b cmd doc = Inr r \<Longrightarrow>
   items (cmd_after r) = items (snd (popItem b cmd)) \<and>
   batchRegistry (cmd_after r) = batchRegistry (snd (popItem b cmd))"
  by (auto simp: doExecute_def Let_def refreshState_def
           split: prod.splits option.splits sum.splits list.splits)

lemma doExecute_stack_Inl:
  "doExecute env rbid b cmd doc = Inl (e, cmd', doc') \<Longrightarrow>
   items cmd' = items (snd (popItem b cmd)) \<and>
   batchRegistry cmd' = batchRegistry (snd (popItem b cmd))"
  by (auto simp: doExecute_def Let_def
           split: prod.splits option.splits sum.splits list.splits)

lemma step_Execute_stack:
  "items (step env (Execute rbid b doc) cmd) = items (snd (popItem b cmd)) \<and>
   batchRegistry (step env (Execute rbid b doc) cmd) = batchRegistry (snd (popItem b cmd))"
proof (cases "doExecute env rbid b cmd doc")
  case (Inl x)
  obtain e cmd' doc' where x: "x = (e, cmd', doc')" by (cases x) auto
  show ?thesis using doExecute_stack_Inl[of env rbid b cmd doc e cmd' doc'] Inl x by simp
next
  case (Inr r)
  show ?thesis using doExecute_stack_Inr[OF Inr] Inr by simp
qed

section \<open>The invariant of the stack\<close>

lemma stackInv_cong:
  "items c' = items c \<Longrightarrow> batchRegistry c' = batchRegistry c \<Longrightarrow> stackInv c' = stackInv c"
  by (simp add: stackInv_def stackIds_def)

lemma addBatch_stackInv: "stackInv cmd \<Longrightarrow> stackInv (addBatch env doc b cmd)"
  by (auto simp: addBatch_def stackInv_def stackIds_def refreshState_def Let_def)

lemma clearStack_stackInv: "stackInv (clearStack cmd)"
  by (simp add: clearStack_def stackInv_def stackIds_def refreshState_def)

lemma step_stackInv: "stackInv cmd \<Longrightarrow> stackInv (step env c cmd)"
proof (cases c)
  case (AddBatch doc b)
  assume "stackInv cmd"
  then show ?thesis using AddBatch by (simp add: addBatch_stackInv)
next
  case ClearStack
  then show ?thesis by (simp add: clearStack_stackInv)
next
  case (Execute rbid b doc)
  assume inv: "stackInv cmd"
  have "stackInv (step env (Execute rbid b doc) cmd) = stackInv (snd (popItem b cmd))"
    using step_Execute_stack[of env rbid b doc cmd] by (intro stackInv_cong) auto
  then show ?thesis using popItem_stackInv[OF inv] Execute by simp
qed

lemma step_ids:
  "set (stackIds (step env c cmd)) \<subseteq> set (stackIds cmd) \<union> set (recordedIds [c])"
proof (cases c)
  case (AddBatch doc b)
  then show ?thesis by (auto simp: addBatch_def stackIds_def refreshState_def Let_def)
next
  case ClearStack
  then show ?thesis by (simp add: clearStack_def stackIds_def refreshState_def)
next
  case (Execute rbid b doc)
  have "stackIds (step env (Execute rbid b doc) cmd) = stackIds (snd (popItem b cmd))"
    using step_Execute_stack[of env rbid b doc cmd] by (simp add: stackIds_def)
  then show ?thesis using popItem_ids_subset[of b cmd] Execute by auto
qed

lemma recordedIds_Cons:
  "set (recordedIds (c # cs)) = set (recordedIds [c]) \<union> set (recordedIds cs)"
  by (cases c) auto

lemma run_stackInv: "stackInv cmd \<Longrightarrow> stackInv (run env cs cmd)"
  by (induction cs arbitrary: cmd) (auto simp: step_stackInv)

lemma run_ids: "set (stackIds (run env cs cmd)) \<subseteq> set (stackIds cmd) \<union> set (recordedIds cs)"
proof (induction cs arbitrary: cmd)
  case Nil
  then show ?case by simp
next
  case (Cons c cs)
  have "set (stackIds (run env cs (step env c cmd)))
          \<subseteq> set (stackIds (step env c cmd)) \<union> set (recordedIds cs)"
    by (rule Cons.IH)
  also have "\<dots> \<subseteq> (set (stackIds cmd) \<union> set (recordedIds [c])) \<union> set (recordedIds cs)"
    using step_ids[of env c cmd] by auto
  finally show ?case using recordedIds_Cons[of c cs] by auto
qed

section \<open>Recording a batch once\<close>

lemma run_threeCalls:
  "stackIds (run testEngine threeCalls (newCommand ''undo'')) = [1, 2]"
  by (simp add: threeCalls_def newCommand_def addBatch_def refreshState_def checkEnabled_def
        userBatch_def stackIds_def testEngine_def)

text \<open>
  Claim C7. \<open>addBatch\<close> records a batch once. Take any sequence of calls of
  \<open>addBatch\<close>, \<open>clearStack\<close> and \<open>_doExecute\<close> on a command that starts with an
  empty stack. Then calling \<open>addBatch\<close> with a batch that is on the stack changes nothing
  in the command (no item is pushed, the stored selection is not read again), and the
  length of the stack is at most the number of distinct batch identities handed to
  \<open>addBatch\<close>.
\<close>

theorem C7_addBatch_idempotent:
  assumes "items cmd0 = []"
  shows "(batch_id b \<in> set (stackIds (run env cs cmd0)) \<longrightarrow>
            addBatch env doc b (run env cs cmd0) = run env cs cmd0) \<and>
         length (items (run env cs cmd0)) \<le> card (set (recordedIds cs))"
proof -
  have inv0: "stackInv cmd0" using assms by (simp add: stackInv_def stackIds_def)
  have inv: "stackInv (run env cs cmd0)" by (rule run_stackInv[OF inv0])
  have sub: "set (stackIds (run env cs cmd0)) \<subseteq> set (recordedIds cs)"
    using run_ids[of env cs cmd0] assms by (simp add: stackIds_def)
  have "length (items (run env cs cmd0)) = length (stackIds (run env cs cmd0))"
    by (simp add: stackIds_def)
  also have "\<dots> = card (set (stackIds (run env cs cmd0)))"
    using inv by (simp add: stackInv_def distinct_card)
  also have "\<dots> \<le> card (set (recordedIds cs))"
    using sub by (simp add: card_mono)
  finally have len: "length (items (run env cs cmd0)) \<le> card (set (recordedIds cs))" .
  have "addBatch env doc b (run env cs cmd0) = run env cs cmd0"
    if "batch_id b \<in> set (stackIds (run env cs cmd0))"
    using that inv by (auto simp: stackInv_def addBatch_def)
  with len show ?thesis by blast
qed

theorem C7_addBatch_idempotent_witness:
  "items (newCommand ''undo'') = [] \<and>
   batch_id (userBatch 1 [insertDelta 1 0 0 ''foo''])
     \<in> set (stackIds (run testEngine threeCalls (newCommand ''undo''))) \<and>
   addBatch testEngine (docWith [] 9 True) (userBatch 1 [insertDelta 1 0 0 ''foo''])
       (run testEngine threeCalls (newCommand ''undo''))
     = run testEngine threeCalls (newCommand ''undo'') \<and>
   length (items (run testEngine threeCalls (newCommand ''undo'')))
     \<le> card (set (recordedIds threeCalls)) \<and>
   card (set (recordedIds threeCalls)) = 2"
proof -
  have a: "items (newCommand ''undo'') = []"
    by (simp add: newCommand_def)
  have m: "batch_id (userBatch 1 [insertDelta 1 0 0 ''foo''])
             \<in> set (stackIds (run testEngine threeCalls (newCommand ''undo'')))"
    by (simp add: run_threeCalls userBatch_def)
  have "set (recordedIds threeCalls) = {1, 2}"
    by (auto simp: threeCalls_def userBatch_def)
  then have c: "card (set (recordedIds threeCalls)) = 2"
    by simp
  show ?thesis
    using a m c
      C7_addBatch_idempotent[OF a, of "userBatch 1 [insertDelta 1 0 0 ''foo'']" testEngine
        threeCalls "docWith [] 9 True"]
    by blast
qed

section \<open>The change listener\<close>





text \<open>
  Claim C9, evaluated on the code. The listener never reads the operations of the batch:
  a batch of the user whose only operation inserts into a detached fragment (the root
  \<open>$fragment\<close> is no root of the document) is put on the undo stack.
\<close>

theorem C9_detached_batch_recorded:
  "stackIds (undoCommand (onChange testEngine (docWith [] 0 False) detachedBatch
      \<lparr>undoCommand = newCommand ''undo'', redoCommand = newCommand ''redo''\<rparr>)) = [3] \<and>
   map (\<lambda>d. map (\<lambda>op. map_option root (opPosition op)) (operations d)) (deltas detachedBatch)
     = [[Some ''$fragment'']]"
  by (simp add: onChange_def detachedBatch_def userBatch_def addBatch_def newCommand_def
        stackIds_def refreshState_def Let_def)

section \<open>Popping an item\<close>

lemma clearStack_registry: "batchRegistry (clearStack cmd) = batchRegistry cmd"
  by (simp add: clearStack_def refreshState_def)

lemma popItem_None_registry: "batchRegistry (snd (popItem None cmd)) = batchRegistry cmd"
  by (simp add: popItem_def Let_def split: prod.splits)

text \<open>
  Claim C8, evaluated on the code. \<open>clearStack\<close> leaves the registry as it is, and so
  does an execution with no batch given (it deletes the parameter, which is
  \<^verbatim>\<open>null\<close>, from the registry). After the command has reverted its only item the stack
  is empty and the registry still holds the identity of the batch, so \<open>addBatch\<close> with
  that batch changes nothing; the same after \<open>clearStack\<close>.
\<close>

theorem C8_registry_keeps_popped_batch:
  "batchRegistry (clearStack cmd) = batchRegistry cmd \<and>
   batchRegistry (snd (popItem None cmd)) = batchRegistry cmd \<and>
   stackIds oneItemCommand = [1] \<and>
   \<not> isl (doExecute testEngine 9 None oneItemCommand fooDoc) \<and>
   stackIds (cmd_after (projr (doExecute testEngine 9 None oneItemCommand fooDoc))) = [] \<and>
   batchRegistry (cmd_after (projr (doExecute testEngine 9 None oneItemCommand fooDoc))) = {1} \<and>
   addBatch testEngine fooDoc fooBatch
       (cmd_after (projr (doExecute testEngine 9 None oneItemCommand fooDoc)))
     = cmd_after (projr (doExecute testEngine 9 None oneItemCommand fooDoc)) \<and>
   stackIds (clearStack oneItemCommand) = [] \<and>
   addBatch testEngine fooDoc fooBatch (clearStack oneItemCommand) = clearStack oneItemCommand"
proof -
  let ?c = "cmd_after (projr (doExecute testEngine 9 None oneItemCommand fooDoc))"
  have s0: "stackIds oneItemCommand = [1]" by code_simp
  have ok: "\<not> isl (doExecute testEngine 9 None oneItemCommand fooDoc)" by code_simp
  have s1: "stackIds ?c = []" by code_simp
  have r1: "batchRegistry ?c = {1}" by code_simp
  have r0: "batchRegistry oneItemCommand = {1}" by code_simp
  have i1: "batch_id fooBatch = 1" by code_simp
  have a1: "addBatch testEngine fooDoc fooBatch ?c = ?c"
    by (simp add: addBatch_def r1 i1)
  have s2: "stackIds (clearStack oneItemCommand) = []"
    by (simp add: clearStack_def refreshState_def stackIds_def)
  have a2: "addBatch testEngine fooDoc fooBatch (clearStack oneItemCommand) = clearStack oneItemCommand"
    by (simp add: addBatch_def clearStack_registry r0 i1)
  show ?thesis
    using s0 ok s1 r1 a1 s2 a2 clearStack_registry[of cmd] popItem_None_registry[of cmd]
    by blast
qed

text \<open>
  Claim C6 fails for a batch that is not on the stack: the index is \<open>-1\<close>, and
  \<^verbatim>\<open>splice( -1, 1 )\<close> removes the last item. Here the stack holds batch 1 and the
  execution is asked for batch 2: batch 1 is reverted, its item is gone and the reversed
  operation is applied.
\<close>

theorem C6_absent_batch_counterexample:
  "stackIds oneItemCommand = [1] \<and>
   batch_id (userBatch 2 []) \<notin> set (stackIds oneItemCommand) \<and>
   \<not> isl (doExecute testEngine 9 (Some (userBatch 2 [])) oneItemCommand fooDoc) \<and>
   stackIds (cmd_after (projr (doExecute testEngine 9 (Some (userBatch 2 [])) oneItemCommand fooDoc))) = [] \<and>
   batch_id (reverted (projr (doExecute testEngine 9 (Some (userBatch 2 [])) oneItemCommand fooDoc))) = 1 \<and>
   applied fooDoc = [] \<and>
   applied (doc_after (projr (doExecute testEngine 9 (Some (userBatch 2 [])) oneItemCommand fooDoc)))
     = [MoveOperation Remove (mainPos 0) 3 \<lparr>root = ''$graveyard'', path = [], offset = 0\<rparr>
               \<lparr>root = ''$graveyard'', path = [], offset = 0\<rparr>]"
  by code_simp

lemma undo_command_items_nil: "items cmd = [] \<Longrightarrow> cmd\<lparr>items := []\<rparr> = cmd"
  by (cases cmd) simp

text \<open>
  Claim C6 as the code has it. With an empty stack the execution ends with a
  \<open>TypeError\<close> before it touches the document: the stack stays empty, no item is
  consumed, no operation is applied. With a batch that is not on a stack that is not empty,
  the top item is taken, and the execution is the one with no batch given (the registry of
  the command apart, from which the identity of the batch asked for is deleted).
\<close>

theorem C6_empty_or_absent:
  "(items cmd = [] \<longrightarrow>
      doExecute env rbid b cmd doc =
        Inl (TypeError,
             cmd\<lparr>batchRegistry := (case b of Some b' \<Rightarrow> batchRegistry cmd - {batch_id b'}
                                      | None \<Rightarrow> batchRegistry cmd)\<rparr>,
             doc)) \<and>
   (items cmd \<noteq> [] \<and> batch_id b' \<notin> set (stackIds cmd) \<longrightarrow>
      fst (popItem (Some b') cmd) = Some (last (items cmd)) \<and>
      doExecute env rbid (Some b') cmd doc =
        doExecute env rbid None (cmd\<lparr>batchRegistry := batchRegistry cmd - {batch_id b'}\<rparr>) doc)"
proof -
  have e: "doExecute env rbid b cmd doc =
        Inl (TypeError,
             cmd\<lparr>batchRegistry := (case b of Some b' \<Rightarrow> batchRegistry cmd - {batch_id b'}
                                      | None \<Rightarrow> batchRegistry cmd)\<rparr>,
             doc)" if "items cmd = []"
    using that undo_command_items_nil[OF that]
    by (simp add: doExecute_def popItem_empty)
  have a: "fst (popItem (Some b') cmd) = Some (last (items cmd)) \<and>
      doExecute env rbid (Some b') cmd doc =
        doExecute env rbid None (cmd\<lparr>batchRegistry := batchRegistry cmd - {batch_id b'}\<rparr>) doc"
    if ne: "items cmd \<noteq> []" and ab: "batch_id b' \<notin> set (stackIds cmd)"
  proof -
    let ?c = "cmd\<lparr>batchRegistry := batchRegistry cmd - {batch_id b'}\<rparr>"
    have ne': "items ?c \<noteq> []" using ne by simp
    have p1: "popItem (Some b') cmd =
           (Some (last (items cmd)),
            cmd\<lparr>items := butlast (items cmd), batchRegistry := batchRegistry cmd - {batch_id b'}\<rparr>)"
      by (rule popItem_absent[OF ne ab])
    have p2: "popItem None ?c = (Some (last (items cmd)), ?c\<lparr>items := butlast (items cmd)\<rparr>)"
      using popItem_top[OF ne'] by simp
    have c: "?c\<lparr>items := butlast (items cmd)\<rparr> = cmd\<lparr>items := butlast (items cmd), batchRegistry := batchRegistry cmd - {batch_id b'}\<rparr>"
      by simp
    show ?thesis
      by (simp add: doExecute_def p1 p2 c)
  qed
  from e a show ?thesis by blast
qed

theorem C6_empty_or_absent_witness:
  "items (newCommand ''undo'') = [] \<and>
   doExecute testEngine 9 None (newCommand ''undo'') fooDoc
     = Inl (TypeError, newCommand ''undo'', fooDoc) \<and>
   items oneItemCommand \<noteq> [] \<and>
   batch_id (userBatch 2 []) \<notin> set (stackIds oneItemCommand) \<and>
   fst (popItem (Some (userBatch 2 [])) oneItemCommand) = Some (last (items oneItemCommand)) \<and>
   doExecute testEngine 9 (Some (userBatch 2 [])) oneItemCommand fooDoc
     = doExecute testEngine 9 None oneItemCommand fooDoc"
proof -
  have e: "items (newCommand ''undo'') = []" by (simp add: newCommand_def)
  have n: "items oneItemCommand \<noteq> []" by code_simp
  have ab: "batch_id (userBatch 2 []) \<notin> set (stackIds oneItemCommand)" by code_simp
  have c1: "(newCommand ''undo'')\<lparr>batchRegistry := batchRegistry (newCommand ''undo'')\<rparr> = newCommand ''undo''"
    by simp
  have r: "batchRegistry oneItemCommand - {batch_id (userBatch 2 [])} = batchRegistry oneItemCommand"
    using ab by (simp add: oneItemCommand_def addBatch_def newCommand_def fooBatch_def userBatch_def
        refreshState_def Let_def)
  have c2: "oneItemCommand\<lparr>batchRegistry := batchRegistry oneItemCommand - {batch_id (userBatch 2 [])}\<rparr> = oneItemCommand"
    by (simp add: r)
  note t1 = C6_empty_or_absent[of "newCommand ''undo''" testEngine 9 None fooDoc "userBatch 2 []"]
  note t2 = C6_empty_or_absent[of oneItemCommand testEngine 9 None fooDoc "userBatch 2 []"]
  have w1: "doExecute testEngine 9 None (newCommand ''undo'') fooDoc
     = Inl (TypeError, newCommand ''undo'', fooDoc)"
    using t1 e by simp
  have w2: "fst (popItem (Some (userBatch 2 [])) oneItemCommand) = Some (last (items oneItemCommand)) \<and>
   doExecute testEngine 9 (Some (userBatch 2 [])) oneItemCommand fooDoc
     = doExecute testEngine 9 None oneItemCommand fooDoc"
    using t2 n ab c2 by simp
  show ?thesis using e n ab w1 w2 by blast
qed

section \<open>The post-fix of moves\<close>














section \<open>Reverting the deltas of a batch\<close>

lemma attach_addDelta [simp]: "attach (addDelta d rb) u = attach rb u"
  by (simp add: attach_def addDelta_def)

lemma attach_deltas_update [simp]: "attach (rb\<lparr>deltas := ds\<rparr>) u = attach rb u"
  by (simp add: attach_def)

lemma operationsOf_deltas_update [simp]: "operationsOf (rb\<lparr>deltas := ds\<rparr>) us = operationsOf rb us"
  by (simp add: operationsOf_def)

lemma operationsOf_addDelta [simp]: "operationsOf (addDelta d rb) us = operationsOf rb us"
  by (simp add: operationsOf_def)

lemma foldl_apply_pairs:
  "foldl (\<lambda>dc op. applyOperation env d op dc) doc ops
     = foldl (\<lambda>dc (d, op). applyOperation env d op dc) doc (map (\<lambda>op. (d, op)) ops)"
  by (induction ops arbitrary: doc) auto

lemma applyDeltas_flat:
  "applyDeltas env us (rb, doc) =
     (rb\<lparr>deltas := deltas rb @ map (attach rb) us\<rparr>, applyAll env doc (operationsOf rb us))"
proof (induction us arbitrary: rb doc)
  case Nil
  then show ?case by (simp add: applyAll_def operationsOf_def)
next
  case (Cons u us)
  show ?case
    by (simp add: Cons.IH) (simp add: addDelta_def applyAll_def operationsOf_def foldl_apply_pairs)
qed

lemma foldl_record_lookup:
  "foldl (\<lambda>m u. m(delta_id u \<mapsto> d)) od us k
     = (if k \<in> set (map delta_id us) then Some d else od k)"
  by (induction us arbitrary: od) auto

lemma foldl_record_originals:
  "foldl (\<lambda>m u. m(delta_id u \<mapsto> d)) od us = recordOriginals od us d"
  unfolding recordOriginals_def by (rule ext) (rule foldl_record_lookup)

lemma revertDeltas_append:
  "revertDeltas env (xs @ ys) st = andThen (revertDeltas env xs st) (revertDeltas env ys)"
proof (induction xs arbitrary: st)
  case Nil
  then show ?case by (simp add: andThen_def)
next
  case (Cons x xs)
  obtain od rb doc where st: "st = (od, rb, doc)" by (cases st) auto
  show ?case
    by (simp add: st Let_def Cons.IH andThen_def split: sum.splits prod.splits)
qed

lemma revertDeltas_single:
  "revertDeltas env [d] (od, rb, doc) =
     (let rebased = getTransformedDelta env doc (getReversed env d);
          od' = recordOriginals od rebased d
      in case postFix env od' rebased (getDeltas env doc (baseVersion d)) of
           Inl e \<Rightarrow> Inl (e, od', rb, doc)
         | Inr fixed \<Rightarrow>
             Inr (od', rb\<lparr>deltas := deltas rb @ map (attach rb) fixed\<rparr>,
                  applyAll env doc (operationsOf rb fixed)))"
  by (simp add: Let_def foldl_record_originals applyDeltas_flat split: sum.splits)

lemma revertDeltas_batch:
  "revertDeltas env ds (od, rb, doc) = Inr (od', rb', doc') \<Longrightarrow>
   batch_id rb' = batch_id rb \<and> btype rb' = btype rb \<and>
   (\<exists>added. deltas rb' = deltas rb @ map (attach rb) added)"
proof (induction ds arbitrary: od rb doc)
  case Nil
  then show ?case by auto
next
  case (Cons d ds)
  let ?rebased = "getTransformedDelta env doc (getReversed env d)"
  let ?od = "foldl (\<lambda>m u. m(delta_id u \<mapsto> d)) od ?rebased"
  from Cons.prems obtain fixed where
    pf: "postFix env ?od ?rebased (getDeltas env doc (baseVersion d)) = Inr fixed"
    by (auto simp: Let_def split: sum.splits)
  let ?rb = "rb\<lparr>deltas := deltas rb @ map (attach rb) fixed\<rparr>"
  have rest: "revertDeltas env ds (?od, ?rb, applyAll env doc (operationsOf rb fixed))
                = Inr (od', rb', doc')"
    using Cons.prems by (simp add: Let_def pf applyDeltas_flat)
  from Cons.IH[OF rest] obtain added where
    a: "batch_id rb' = batch_id rb" "btype rb' = btype rb"
       "deltas rb' = deltas ?rb @ map (attach rb) added"
    by auto
  have "deltas rb' = deltas rb @ map (attach rb) (fixed @ added)" using a(3) by simp
  with a(1,2) show ?case by blast
qed

lemma popItem_keeps:
  "ctype (snd (popItem b cmd)) = ctype cmd \<and>
   originalDeltas (snd (popItem b cmd)) = originalDeltas cmd \<and>
   isEnabled (snd (popItem b cmd)) = isEnabled cmd"
  by (simp add: popItem_def Let_def split: prod.splits)

lemma doExecute_InrD:
  assumes "doExecute env rbid b cmd doc = Inr r"
  obtains it cmd1 od rb doc1 d0 ds where
    "popItem b cmd = (Some it, cmd1)"
    "revertDeltas env (rev (deltas (item_batch it)))
       (originalDeltas cmd, \<lparr>batch_id = rbid, btype = Some (ctype cmd), deltas = []\<rparr>, doc)
     = Inr (od, rb, doc1)"
    "deltas (item_batch it) = d0 # ds"
    "r = \<lparr>cmd_after = refreshState (cmd1\<lparr>originalDeltas := od\<rparr>),
          doc_after = restoreSelection env (selection it) (getDeltas env doc1 (baseVersion d0)) doc1,
          reversionBatch = rb, reverted = item_batch it\<rparr>"
proof -
  obtain oi cmd1 where p: "popItem b cmd = (oi, cmd1)" by (cases "popItem b cmd") auto
  have k: "ctype cmd1 = ctype cmd" "originalDeltas cmd1 = originalDeltas cmd"
    using popItem_keeps[of b cmd] p by simp_all
  from assms p obtain it where oi: "oi = Some it"
    by (cases oi) (auto simp: doExecute_def)
  let ?st = "revertDeltas env (rev (deltas (item_batch it)))
       (originalDeltas cmd, \<lparr>batch_id = rbid, btype = Some (ctype cmd), deltas = []\<rparr>, doc)"
  from assms p oi k obtain od rb doc1 where rv: "?st = Inr (od, rb, doc1)"
    by (cases ?st) (auto simp: doExecute_def Let_def split: prod.splits)
  from assms p oi k rv obtain d0 ds where dl: "deltas (item_batch it) = d0 # ds"
    by (cases "deltas (item_batch it)") (auto simp: doExecute_def Let_def)
  have "r = \<lparr>cmd_after = refreshState (cmd1\<lparr>originalDeltas := od\<rparr>),
          doc_after = restoreSelection env (selection it) (getDeltas env doc1 (baseVersion d0)) doc1,
          reversionBatch = rb, reverted = item_batch it\<rparr>"
    using assms p oi k rv dl by (simp add: doExecute_def Let_def)
  with p oi rv dl show ?thesis using that by blast
qed

text \<open>
  Claim C1. An execution that completes reverts the batch of the item it removed from the
  stack. The reversion batch is a new batch (the identity given to it, no deltas) whose
  type is the type of the command. The deltas of the reverted batch are processed in
  reverse order: for \<open>A, B, C\<close> first \<open>C\<close>, then \<open>B\<close>, then \<open>A\<close> (the last delta of a
  batch first, then the others). Processing one delta reverses it, rebases the reversed
  delta with \<^verbatim>\<open>history.getTransformedDelta\<close>, files the original under every rebased
  delta, runs the post-fix, adds every resulting delta to the reversion batch and applies
  each of its operations to the document, in their order.
\<close>

theorem C1_revert_in_reverse_order:
  "(doExecute env rbid b cmd doc = Inr r \<longrightarrow>
      map_option item_batch (fst (popItem b cmd)) = Some (reverted r) \<and>
      batch_id (reversionBatch r) = rbid \<and>
      btype (reversionBatch r) = Some (ctype cmd) \<and>
      (\<exists>docA. revertDeltas env (rev (deltas (reverted r)))
                 (originalDeltas cmd,
                  \<lparr>batch_id = rbid, btype = Some (ctype cmd), deltas = []\<rparr>, doc)
               = Inr (originalDeltas (cmd_after r), reversionBatch r, docA))) \<and>
   revertDeltas env (rev [A, B, C]) st =
     andThen (andThen (revertDeltas env [C] st) (revertDeltas env [B])) (revertDeltas env [A]) \<and>
   revertDeltas env (rev (ds @ [d])) st =
     andThen (revertDeltas env [d] st) (revertDeltas env (rev ds)) \<and>
   revertDeltas env [d] (od, rb, dc) =
     (let rebased = getTransformedDelta env dc (getReversed env d);
          od' = recordOriginals od rebased d
      in case postFix env od' rebased (getDeltas env dc (baseVersion d)) of
           Inl e \<Rightarrow> Inl (e, od', rb, dc)
         | Inr fixed \<Rightarrow>
             Inr (od', rb\<lparr>deltas := deltas rb @ map (attach rb) fixed\<rparr>,
                  applyAll env dc (operationsOf rb fixed)))"
proof -
  have exec: "map_option item_batch (fst (popItem b cmd)) = Some (reverted r) \<and>
      batch_id (reversionBatch r) = rbid \<and>
      btype (reversionBatch r) = Some (ctype cmd) \<and>
      (\<exists>docA. revertDeltas env (rev (deltas (reverted r)))
                 (originalDeltas cmd,
                  \<lparr>batch_id = rbid, btype = Some (ctype cmd), deltas = []\<rparr>, doc)
               = Inr (originalDeltas (cmd_after r), reversionBatch r, docA))"
    if ex: "doExecute env rbid b cmd doc = Inr r"
  proof -
    from ex obtain it cmd1 od1 rb1 doc1 d0 ds0 where
      p: "popItem b cmd = (Some it, cmd1)" and
      rv: "revertDeltas env (rev (deltas (item_batch it)))
             (originalDeltas cmd, \<lparr>batch_id = rbid, btype = Some (ctype cmd), deltas = []\<rparr>, doc)
           = Inr (od1, rb1, doc1)" and
      dl: "deltas (item_batch it) = d0 # ds0" and
      r: "r = \<lparr>cmd_after = refreshState (cmd1\<lparr>originalDeltas := od1\<rparr>),
          doc_after = restoreSelection env (selection it) (getDeltas env doc1 (baseVersion d0)) doc1,
          reversionBatch = rb1, reverted = item_batch it\<rparr>"
      by (rule doExecute_InrD)
    have b: "batch_id rb1 = rbid \<and> btype rb1 = Some (ctype cmd)"
      using revertDeltas_batch[OF rv] by simp
    show ?thesis using p rv b by (auto simp: r refreshState_def)
  qed
  have abc: "revertDeltas env (rev [A, B, C]) st =
     andThen (andThen (revertDeltas env [C] st) (revertDeltas env [B])) (revertDeltas env [A])"
    using revertDeltas_append[of env "[C, B]" "[A]" st] revertDeltas_append[of env "[C]" "[B]" st]
    by simp
  have snoc: "revertDeltas env (rev (ds @ [d])) st =
     andThen (revertDeltas env [d] st) (revertDeltas env (rev ds))"
    using revertDeltas_append[of env "[d]" "rev ds" st] by simp
  show ?thesis
    using exec abc snoc revertDeltas_single[of env d od rb dc] by blast
qed

theorem C1_revert_in_reverse_order_witness:
  "\<not> isl (doExecute testEngine 9 None abcCommand abcDoc) \<and>
   map delta_id (deltas (reverted (projr (doExecute testEngine 9 None abcCommand abcDoc))))
     = [1, 2, 3] \<and>
   map delta_id (deltas (reversionBatch (projr (doExecute testEngine 9 None abcCommand abcDoc))))
     = [103, 102, 101] \<and>
   map batchType (deltas (reversionBatch (projr (doExecute testEngine 9 None abcCommand abcDoc))))
     = [Some (Some ''undo''), Some (Some ''undo''), Some (Some ''undo'')] \<and>
   applied (doc_after (projr (doExecute testEngine 9 None abcCommand abcDoc)))
     = map reverseOperation
         [InsertOperation (mainPos 2) ''c'', InsertOperation (mainPos 1) ''b'',
          InsertOperation (mainPos 0) ''a''] \<and>
   batch_id (reversionBatch (projr (doExecute testEngine 9 None abcCommand abcDoc))) = 9 \<and>
   btype (reversionBatch (projr (doExecute testEngine 9 None abcCommand abcDoc))) = Some ''undo''"
proof -
  let ?x = "doExecute testEngine 9 None abcCommand abcDoc"
  have ok: "\<not> isl ?x" by code_simp
  then have ex: "?x = Inr (projr ?x)" by simp
  have ty: "ctype abcCommand = ''undo''" by code_simp
  have e1: "map delta_id (deltas (reverted (projr ?x))) = [1, 2, 3]" by code_simp
  have e2: "map delta_id (deltas (reversionBatch (projr ?x))) = [103, 102, 101]" by code_simp
  have e3: "map batchType (deltas (reversionBatch (projr ?x)))
     = [Some (Some ''undo''), Some (Some ''undo''), Some (Some ''undo'')]" by code_simp
  have e4: "applied (doc_after (projr ?x))
     = map reverseOperation
         [InsertOperation (mainPos 2) ''c'', InsertOperation (mainPos 1) ''b'',
          InsertOperation (mainPos 0) ''a'']" by code_simp
  have t: "batch_id (reversionBatch (projr ?x)) = 9 \<and>
           btype (reversionBatch (projr ?x)) = Some ''undo''"
    using C1_revert_in_reverse_order[of testEngine 9 None abcCommand abcDoc "projr ?x"] ex ty
    by simp
  show ?thesis using ok e1 e2 e3 e4 t by blast
qed

section \<open>The loops over the transformed ranges\<close>








text \<open>The cases of the \<^verbatim>\<open>switch\<close> are the four types \<open>insert\<close>, \<open>move\<close>,
  \<open>remove\<close> and \<open>reinsert\<close>.\<close>

lemma transformRange_by_type:
  "(transformRange env op r \<noteq> None) =
     (optype op \<in> {''insert'', ''move'', ''remove'', ''reinsert''})"
proof (cases op)
  case (MoveOperation c s n t m)
  then show ?thesis by (cases c) simp_all
qed simp_all





section \<open>Restoring the selection\<close>

lemma restoreSelection_spec:
  "restoreSelection env ss hist doc =
     (if collectRanges env doc hist (ranges ss) [] = [] then doc
      else setRanges env (collectRanges env doc hist (ranges ss) []) (isBackward ss) doc)"
  by (simp add: restoreSelection_def Let_def)

text \<open>
  Claim C4. If no transformed range survives, the document (and with it the selection) is
  left as it is; otherwise the selection is set to the surviving ranges with the
  \<^verbatim>\<open>isBackward\<close> of the stored selection. An execution that completes ends with this
  step, on the document as the reverted deltas left it, with the selection stored in the
  item; the stored selection is the one \<open>addBatch\<close> read when it recorded the batch.
\<close>

theorem C4_restore_selection:
  "restoreSelection env ss hist dc =
     (if collectRanges env dc hist (ranges ss) [] = [] then dc
      else setRanges env (collectRanges env dc hist (ranges ss) []) (isBackward ss) dc) \<and>
   (doExecute env rbid b cmd doc = Inr r \<longrightarrow>
      (\<exists>it d0 ds docA.
         fst (popItem b cmd) = Some it \<and> deltas (item_batch it) = d0 # ds \<and>
         revertDeltas env (rev (deltas (item_batch it)))
             (originalDeltas cmd, \<lparr>batch_id = rbid, btype = Some (ctype cmd), deltas = []\<rparr>, doc)
           = Inr (originalDeltas (cmd_after r), reversionBatch r, docA) \<and>
         doc_after r =
           restoreSelection env (selection it) (getDeltas env docA (baseVersion d0)) docA)) \<and>
   (batch_id b' \<notin> batchRegistry cmd0 \<longrightarrow>
      selection (last (items (addBatch env doc0 b' cmd0))) =
        \<lparr>ranges = getRanges env doc0, isBackward = selectionIsBackward env doc0\<rparr>)"
proof -
  have ex: "\<exists>it d0 ds docA.
         fst (popItem b cmd) = Some it \<and> deltas (item_batch it) = d0 # ds \<and>
         revertDeltas env (rev (deltas (item_batch it)))
             (originalDeltas cmd, \<lparr>batch_id = rbid, btype = Some (ctype cmd), deltas = []\<rparr>, doc)
           = Inr (originalDeltas (cmd_after r), reversionBatch r, docA) \<and>
         doc_after r =
           restoreSelection env (selection it) (getDeltas env docA (baseVersion d0)) docA"
    if e: "doExecute env rbid b cmd doc = Inr r"
  proof -
    from e obtain it cmd1 od1 rb1 doc1 d0 ds0 where
      p: "popItem b cmd = (Some it, cmd1)" and
      rv: "revertDeltas env (rev (deltas (item_batch it)))
             (originalDeltas cmd, \<lparr>batch_id = rbid, btype = Some (ctype cmd), deltas = []\<rparr>, doc)
           = Inr (od1, rb1, doc1)" and
      dl: "deltas (item_batch it) = d0 # ds0" and
      r: "r = \<lparr>cmd_after = refreshState (cmd1\<lparr>originalDeltas := od1\<rparr>),
          doc_after = restoreSelection env (selection it) (getDeltas env doc1 (baseVersion d0)) doc1,
          reversionBatch = rb1, reverted = item_batch it\<rparr>"
      by (rule doExecute_InrD)
    show ?thesis using p rv dl by (auto simp: r refreshState_def)
  qed
  have ad: "selection (last (items (addBatch env doc0 b' cmd0))) =
        \<lparr>ranges = getRanges env doc0, isBackward = selectionIsBackward env doc0\<rparr>"
    if "batch_id b' \<notin> batchRegistry cmd0"
    using that by (simp add: addBatch_def refreshState_def Let_def)
  show ?thesis using ex ad restoreSelection_spec[of env ss hist dc] by blast
qed

theorem C4_restore_selection_witness:
  "selection (last (items backwardCommand)) = \<lparr>ranges = [caret 1], isBackward = True\<rparr> \<and>
   sel (docWith [insertDelta 8 1 2 ''xx''] 4 False) = \<lparr>ranges = [caret 4], isBackward = False\<rparr> \<and>
   \<not> isl (doExecute testEngine 9 None backwardCommand (docWith [insertDelta 8 1 2 ''xx''] 4 False)) \<and>
   sel (doc_after (projr (doExecute testEngine 9 None backwardCommand
          (docWith [insertDelta 8 1 2 ''xx''] 4 False))))
     = \<lparr>ranges = [caret 1], isBackward = True\<rparr> \<and>
   collectRanges testEngine (docWith [] 0 False) splitHistory [caret 2] [] = [] \<and>
   restoreSelection testEngine \<lparr>ranges = [caret 2], isBackward = True\<rparr> splitHistory
       (docWith [] 0 False)
     = docWith [] 0 False \<and>
   \<not> isl (doExecute testEngine 9 None oneItemCommand fooDoc) \<and>
   sel (doc_after (projr (doExecute testEngine 9 None oneItemCommand fooDoc))) = sel fooDoc"
proof -
  let ?d = "docWith [insertDelta 8 1 2 ''xx''] 4 False"
  let ?x = "doExecute testEngine 9 None backwardCommand ?d"
  let ?b = "userBatch 7 [insertDelta 8 1 2 ''xx'']"
  note t = C4_restore_selection[of testEngine "\<lparr>ranges = [caret 2], isBackward = True\<rparr>"
      splitHistory "docWith [] 0 False" 9 None backwardCommand ?d "projr ?x" ?b
      "newCommand ''undo''" "docWith [] 1 True"]
  note t1 = t[THEN conjunct1]
  note t3 = t[THEN conjunct2, THEN conjunct2]
  have fresh: "batch_id ?b \<notin> batchRegistry (newCommand ''undo'')" by code_simp
  have g: "getRanges testEngine (docWith [] 1 True) = [caret 1]"
    "selectionIsBackward testEngine (docWith [] 1 True) = True" by code_simp+
  have s0: "selection (last (items backwardCommand)) = \<lparr>ranges = [caret 1], isBackward = True\<rparr>"
    using t3 fresh unfolding backwardCommand_def g by blast
  have s1: "sel ?d = \<lparr>ranges = [caret 4], isBackward = False\<rparr>" by code_simp
  have ok: "\<not> isl ?x" by code_simp
  have s2: "sel (doc_after (projr ?x)) = \<lparr>ranges = [caret 1], isBackward = True\<rparr>" by code_simp
  have c: "collectRanges testEngine (docWith [] 0 False) splitHistory [caret 2] [] = []"
    by code_simp
  have u: "restoreSelection testEngine \<lparr>ranges = [caret 2], isBackward = True\<rparr> splitHistory
       (docWith [] 0 False) = docWith [] 0 False"
    using t1 c by simp
  have ok2: "\<not> isl (doExecute testEngine 9 None oneItemCommand fooDoc)" by code_simp
  have s3: "sel (doc_after (projr (doExecute testEngine 9 None oneItemCommand fooDoc))) = sel fooDoc"
    by code_simp
  show ?thesis using s0 s1 ok s2 c u ok2 s3 by blast
qed

section \<open>The map of the original deltas\<close>

text \<open>
  Claim C10 fails: the map is a field of the command, made once by the constructor. The
  first undo files the original of its rebased delta 102 in the map, and the entry is
  there after the execution. In the second undo the history holds delta 102, now of an
  undo batch, with the target of the rebased delta 101; the post-fix looks both originals
  up, finds the entry of the first undo and shifts the move by one (the target offset is
  1: \<open>foobar\<close>). On a command whose map was emptied in between, nothing is shifted (the
  target offset is 0: \<open>oofbar\<close>).
\<close>

theorem C10_originals_kept_counterexample:
  "\<not> isl firstUndo \<and>
   originalDeltas twoMovesCommand 102 = None \<and>
   originalDeltas (cmd_after (projr firstUndo)) 102 = Some moveF \<and>
   map delta_id (getDeltas testEngine (doc_after (projr firstUndo)) (baseVersion moveOO))
     = [1, 2, 102] \<and>
   \<not> isl secondUndo \<and>
   map operations (deltas (reversionBatch (projr secondUndo)))
     = [[MoveOperation Move (mainPos 4) 2 (mainPos 1) (mainPos 1)]] \<and>
   \<not> isl secondUndoForgetful \<and>
   map operations (deltas (reversionBatch (projr secondUndoForgetful)))
     = [[MoveOperation Move (mainPos 4) 2 (mainPos 0) (mainPos 0)]]"
  by code_simp

lemma revertDeltas_originals:
  "revertDeltas env ds (od, rb, doc) = Inr (od', rb', doc') \<Longrightarrow>
   od' k = od k \<or> od' k \<in> Some ` set ds"
proof (induction ds arbitrary: od rb doc)
  case Nil
  then show ?case by simp
next
  case (Cons d ds)
  let ?rebased = "getTransformedDelta env doc (getReversed env d)"
  let ?od = "recordOriginals od ?rebased d"
  from Cons.prems obtain fixed where
    pf: "postFix env ?od ?rebased (getDeltas env doc (baseVersion d)) = Inr fixed"
    by (auto simp: Let_def foldl_record_originals split: sum.splits)
  have rest: "revertDeltas env ds
                (?od, rb\<lparr>deltas := deltas rb @ map (attach rb) fixed\<rparr>,
                 applyAll env doc (operationsOf rb fixed))
                = Inr (od', rb', doc')"
    using Cons.prems by (simp add: Let_def foldl_record_originals pf applyDeltas_flat)
  have "od' k = ?od k \<or> od' k \<in> Some ` set ds" by (rule Cons.IH[OF rest])
  moreover have "?od k = od k \<or> ?od k = Some d" by (simp add: recordOriginals_def)
  ultimately show ?case by auto
qed

lemma addBatch_originals: "originalDeltas (addBatch env doc b cmd) = originalDeltas cmd"
  by (simp add: addBatch_def refreshState_def Let_def)

lemma clearStack_originals: "originalDeltas (clearStack cmd) = originalDeltas cmd"
  by (simp add: clearStack_def refreshState_def)

text \<open>
  Claim C10 as the code has it. The map belongs to the command and outlives an execution:
  an execution that completes starts its loop over the deltas from the map of the command
  and leaves every entry as it was, unless it files a delta of the reverted batch under
  that key; every round of the loop hands the map, with the entries of all earlier rounds
  and executions, to the post-fix. \<open>addBatch\<close> and \<open>clearStack\<close> do not touch the map.
\<close>

theorem C10_originals_of_the_command:
  "(doExecute env rbid b cmd doc = Inr r \<longrightarrow>
      (originalDeltas (cmd_after r) k = originalDeltas cmd k \<or>
       originalDeltas (cmd_after r) k \<in> Some ` set (deltas (reverted r))) \<and>
      (\<exists>docA. revertDeltas env (rev (deltas (reverted r)))
                 (originalDeltas cmd,
                  \<lparr>batch_id = rbid, btype = Some (ctype cmd), deltas = []\<rparr>, doc)
               = Inr (originalDeltas (cmd_after r), reversionBatch r, docA))) \<and>
   (revertDeltas env (d # ds) (od, rb, dc) = Inr st \<longrightarrow>
      \<not> isl (postFix env (recordOriginals od (getTransformedDelta env dc (getReversed env d)) d)
               (getTransformedDelta env dc (getReversed env d))
               (getDeltas env dc (baseVersion d)))) \<and>
   originalDeltas (addBatch env doc b' cmd) = originalDeltas cmd \<and>
   originalDeltas (clearStack cmd) = originalDeltas cmd"
proof -
  have ex: "(originalDeltas (cmd_after r) k = originalDeltas cmd k \<or>
       originalDeltas (cmd_after r) k \<in> Some ` set (deltas (reverted r))) \<and>
      (\<exists>docA. revertDeltas env (rev (deltas (reverted r)))
                 (originalDeltas cmd,
                  \<lparr>batch_id = rbid, btype = Some (ctype cmd), deltas = []\<rparr>, doc)
               = Inr (originalDeltas (cmd_after r), reversionBatch r, docA))"
    if e: "doExecute env rbid b cmd doc = Inr r"
  proof -
    from e obtain it cmd1 od1 rb1 doc1 d0 ds0 where
      p: "popItem b cmd = (Some it, cmd1)" and
      rv: "revertDeltas env (rev (deltas (item_batch it)))
             (originalDeltas cmd, \<lparr>batch_id = rbid, btype = Some (ctype cmd), deltas = []\<rparr>, doc)
           = Inr (od1, rb1, doc1)" and
      dl: "deltas (item_batch it) = d0 # ds0" and
      r: "r = \<lparr>cmd_after = refreshState (cmd1\<lparr>originalDeltas := od1\<rparr>),
          doc_after = restoreSelection env (selection it) (getDeltas env doc1 (baseVersion d0)) doc1,
          reversionBatch = rb1, reverted = item_batch it\<rparr>"
      by (rule doExecute_InrD)
    have "od1 k = originalDeltas cmd k \<or> od1 k \<in> Some ` set (rev (deltas (item_batch it)))"
      by (rule revertDeltas_originals[OF rv])
    then show ?thesis using rv by (auto simp: r refreshState_def)
  qed
  have pf: "\<not> isl (postFix env (recordOriginals od (getTransformedDelta env dc (getReversed env d)) d)
               (getTransformedDelta env dc (getReversed env d))
               (getDeltas env dc (baseVersion d)))"
    if "revertDeltas env (d # ds) (od, rb, dc) = Inr st"
    using that by (auto simp: Let_def foldl_record_originals split: sum.splits)
  show ?thesis
    using ex pf addBatch_originals[of env doc b' cmd] clearStack_originals[of cmd] by blast
qed

theorem C10_originals_of_the_command_witness:
  "\<not> isl firstUndo \<and>
   originalDeltas twoMovesCommand 102 = None \<and>
   originalDeltas (cmd_after (projr firstUndo)) 102 = Some moveF \<and>
   moveF \<in> set (deltas (reverted (projr firstUndo))) \<and>
   \<not> isl secondUndo \<and>
   originalDeltas (cmd_after (projr secondUndo)) 102 = Some moveF \<and>
   originalDeltas (cmd_after (projr secondUndo)) 101 = Some moveOO"
proof -
  have ok1: "\<not> isl firstUndo" by code_simp
  then have e1: "doExecute testEngine 8 None twoMovesCommand twoMovesDoc = Inr (projr firstUndo)"
    by (simp add: firstUndo_def)
  have ok2: "\<not> isl secondUndo" by code_simp
  then have e2: "doExecute testEngine 9 None (cmd_after (projr firstUndo)) (doc_after (projr firstUndo))
                   = Inr (projr secondUndo)"
    by (simp add: secondUndo_def)
  have n0: "originalDeltas twoMovesCommand 102 = None" by code_simp
  have s1: "originalDeltas (cmd_after (projr firstUndo)) 102 = Some moveF" by code_simp
  have m1: "moveF \<in> set (deltas (reverted (projr firstUndo)))" by code_simp
  have s3: "originalDeltas (cmd_after (projr secondUndo)) 101 = Some moveOO" by code_simp
  note t2 = C10_originals_of_the_command[of testEngine 9 None "cmd_after (projr firstUndo)"
      "doc_after (projr firstUndo)" "projr secondUndo" 102]
  have "originalDeltas (cmd_after (projr secondUndo)) 102
          = originalDeltas (cmd_after (projr firstUndo)) 102 \<or>
        originalDeltas (cmd_after (projr secondUndo)) 102
          \<in> Some ` set (deltas (reverted (projr secondUndo)))"
    using t2 e2 by blast
  moreover have "originalDeltas (cmd_after (projr secondUndo)) 102
          \<notin> Some ` set (deltas (reverted (projr secondUndo)))"
    by code_simp
  ultimately have s2: "originalDeltas (cmd_after (projr secondUndo)) 102 = Some moveF"
    using s1 by simp
  show ?thesis using ok1 n0 s1 m1 ok2 s2 s3 by blast
qed

end
